theory Spec2Isabelle
  imports
    Complex_Main
    "HOL-Library.Char_ord"
    "HOL-Library.List_Lexorder"
    "HOL-Library.AList"
begin

section \<open>Data model\<close>

text \<open>
  The preprocessing script \<^verbatim>\<open>scripts/data_preprocessing.py\<close> works on pandas data frames.
  A frame is an index (the row labels) and an ordered list of named columns. The script
  separates columns only by the test \<^verbatim>\<open>dtype in ['int64', 'float64']\<close>, so a column is
  either numeric or an object column of strings; other dtypes (bool, datetime) do not
  occur in the columns the script names and are not modelled. A missing cell (NaN, None)
  is \<open>None\<close>.
  Numeric cells are exact rationals: the rounding of binary floating point is not part of
  this model, and the literals \<^verbatim>\<open>0.3\<close>, \<^verbatim>\<open>0.4\<close>, \<^verbatim>\<open>1.5\<close>, \<^verbatim>\<open>0.25\<close>, \<^verbatim>\<open>0.75\<close> are the
  fractions they denote.
\<close>

datatype column = Numeric "rat option list" | Object "string option list"

record dataframe =
  index :: "nat list"
  cols :: "(string \<times> column) list"

datatype error = KeyError string | ValueError | TypeError

fun col_length :: "column \<Rightarrow> nat" where
  "col_length (Numeric xs) = length xs"
| "col_length (Object ss) = length ss"

definition nrows :: "dataframe \<Rightarrow> nat" where
  "nrows df = length (index df)"

definition columns :: "dataframe \<Rightarrow> string list" where
  "columns df = map fst (cols df)"

text \<open>
  A well-formed frame, as \<^verbatim>\<open>pd.read_csv\<close> builds it: the row labels are distinct, the
  column names are distinct and every column has one cell for each row label.
\<close>

definition wf_dataframe :: "dataframe \<Rightarrow> bool" where
  "wf_dataframe df \<longleftrightarrow>
     distinct (index df) \<and> distinct (columns df) \<and> list_all (\<lambda>(name, c). col_length c = nrows df) (cols df)"

text \<open>\<^verbatim>\<open>df[name]\<close> raises KeyError on an absent column; \<^verbatim>\<open>df[name] = c\<close> overwrites the
  column in place when it exists and appends it otherwise.\<close>

definition getitem :: "dataframe \<Rightarrow> string \<Rightarrow> error + column" where
  "getitem df name = (case map_of (cols df) name of None \<Rightarrow> Inl (KeyError name) | Some c \<Rightarrow> Inr c)"

definition setitem :: "dataframe \<Rightarrow> string \<Rightarrow> column \<Rightarrow> dataframe" where
  "setitem df name c = df\<lparr>cols := AList.update name c (cols df)\<rparr>"

section \<open>The pandas operations the script calls\<close>

fun dropna :: "'a option list \<Rightarrow> 'a list" where
  "dropna [] = []"
| "dropna (None # cs) = dropna cs"
| "dropna (Some x # cs) = x # dropna cs"

text \<open>\<^verbatim>\<open>s.isnull().sum()\<close>\<close>

definition isnull_sum :: "'a option list \<Rightarrow> nat" where
  "isnull_sum cells = length (filter (\<lambda>c. c = None) cells)"

text \<open>\<^verbatim>\<open>s.fillna(v)\<close>: a fill value that is itself NaN leaves the cell missing.\<close>

definition fillna :: "'a option \<Rightarrow> 'a option list \<Rightarrow> 'a option list" where
  "fillna v cells = map (\<lambda>c. case c of None \<Rightarrow> v | Some x \<Rightarrow> Some x) cells"

text \<open>\<^verbatim>\<open>s.median()\<close> skips missing cells and is NaN when nothing is left.\<close>

definition median :: "rat option list \<Rightarrow> rat option" where
  "median cells =
     (let s = sort (dropna cells); n = length s in
      if n = 0 then None
      else if odd n then Some (s ! (n div 2))
      else Some ((s ! (n div 2 - 1) + s ! (n div 2)) / 2))"

text \<open>\<^verbatim>\<open>s.mode()\<close> drops missing cells and returns the most frequent values sorted
  ascending; \<^verbatim>\<open>[0]\<close> on the empty result raises KeyError.\<close>

definition mode :: "string option list \<Rightarrow> string list" where
  "mode cells =
     (let vs = dropna cells; top = foldr max (map (count_list vs) vs) 0 in
      sort (remdups (filter (\<lambda>v. count_list vs v = top) vs)))"

definition first_item :: "'a list \<Rightarrow> error + 'a" where
  "first_item xs = (case xs of [] \<Rightarrow> Inl (KeyError ''0'') | x # _ \<Rightarrow> Inr x)"

text \<open>\<^verbatim>\<open>s.quantile(q)\<close> with the default linear interpolation between the two order
  statistics around position \<open>(n - 1) * q\<close>; NaN on a column without values.\<close>

definition quantile :: "rat \<Rightarrow> rat option list \<Rightarrow> rat option" where
  "quantile q cells =
     (let s = sort (dropna cells); n = length s in
      if n = 0 then None
      else
        let h = of_nat (n - 1) * q;
            lo = nat \<lfloor>h\<rfloor>;
            hi = min (lo + 1) (n - 1)
        in Some (s ! lo + (h - of_nat lo) * (s ! hi - s ! lo)))"

text \<open>\<^verbatim>\<open>df.loc[df[col] < b, col] = b\<close> and its mirror image. A comparison with a missing
  cell is false, so missing cells stay.\<close>

definition replace_below :: "rat \<Rightarrow> rat option list \<Rightarrow> rat option list" where
  "replace_below b cells = map (\<lambda>c. case c of None \<Rightarrow> None | Some x \<Rightarrow> if x < b then Some b else Some x) cells"

definition replace_above :: "rat \<Rightarrow> rat option list \<Rightarrow> rat option list" where
  "replace_above b cells = map (\<lambda>c. case c of None \<Rightarrow> None | Some x \<Rightarrow> if x > b then Some b else Some x) cells"

section \<open>clean_data\<close>

text \<open>
  One round of the first loop of \<^verbatim>\<open>clean_data\<close> (lines 60 to 67). The in-place
  \<^verbatim>\<open>cleaned_df[col].fillna(..., inplace=True)\<close> writes through to the frame, as it does in
  the pandas versions the script was written for.
\<close>

definition fill_missing_col :: "string \<Rightarrow> dataframe \<Rightarrow> error + dataframe" where
  "fill_missing_col col df =
     (case getitem df col of
        Inl e \<Rightarrow> Inl e
      | Inr (Numeric xs) \<Rightarrow>
          if isnull_sum xs > 0 then Inr (setitem df col (Numeric (fillna (median xs) xs)))
          else Inr df
      | Inr (Object ss) \<Rightarrow>
          if isnull_sum ss > 0 then
            (case first_item (mode ss) of
               Inl e \<Rightarrow> Inl e
             | Inr m \<Rightarrow> Inr (setitem df col (Object (fillna (Some m) ss))))
          else Inr df)"

fun fill_missing :: "string list \<Rightarrow> dataframe \<Rightarrow> error + dataframe" where
  "fill_missing [] df = Inr df"
| "fill_missing (col # rest) df =
     (case fill_missing_col col df of Inl e \<Rightarrow> Inl e | Inr df' \<Rightarrow> fill_missing rest df')"

text \<open>\<^verbatim>\<open>select_dtypes(include=['int64', 'float64']).columns\<close>\<close>

fun is_numeric :: "column \<Rightarrow> bool" where
  "is_numeric (Numeric xs) = True"
| "is_numeric (Object ss) = False"

definition numeric_cols :: "dataframe \<Rightarrow> string list" where
  "numeric_cols df = map fst (filter (\<lambda>(name, c). is_numeric c) (cols df))"

text \<open>
  The bounds of lines 72 to 76. When the column has no value at all both quartiles are
  NaN, and so are the bounds.
\<close>

definition iqr_bounds :: "rat option list \<Rightarrow> (rat \<times> rat) option" where
  "iqr_bounds cells =
     (case (quantile (1 / 4) cells, quantile (3 / 4) cells) of
        (Some Q1, Some Q3) \<Rightarrow>
          let IQR = Q3 - Q1;
              lower_bound = Q1 - (3 / 2) * IQR;
              upper_bound = Q3 + (3 / 2) * IQR
          in Some (lower_bound, upper_bound)
      | _ \<Rightarrow> None)"

text \<open>Lines 79 and 80: first the cells below the lower bound, then, on the column so
  changed, the cells above the upper bound. NaN bounds select no cell.\<close>

definition clip_cells :: "rat option list \<Rightarrow> rat option list" where
  "clip_cells cells =
     (case iqr_bounds cells of
        None \<Rightarrow> cells
      | Some (lower_bound, upper_bound) \<Rightarrow>
          replace_above upper_bound (replace_below lower_bound cells))"

definition clip_col :: "string \<Rightarrow> dataframe \<Rightarrow> error + dataframe" where
  "clip_col col df =
     (case getitem df col of
        Inl e \<Rightarrow> Inl e
      | Inr (Numeric xs) \<Rightarrow> Inr (setitem df col (Numeric (clip_cells xs)))
      | Inr (Object ss) \<Rightarrow> Inl TypeError)"

fun clip_outliers :: "string list \<Rightarrow> dataframe \<Rightarrow> error + dataframe" where
  "clip_outliers [] df = Inr df"
| "clip_outliers (col # rest) df =
     (case clip_col col df of Inl e \<Rightarrow> Inl e | Inr df' \<Rightarrow> clip_outliers rest df')"

definition clean_data :: "dataframe \<Rightarrow> error + dataframe" where
  "clean_data df =
     (case fill_missing (columns df) df of
        Inl e \<Rightarrow> Inl e
      | Inr filled \<Rightarrow> clip_outliers (numeric_cols filled) filled)"

section \<open>feature_engineering\<close>

definition bind :: "error + 'a \<Rightarrow> ('a \<Rightarrow> error + 'b) \<Rightarrow> error + 'b" where
  "bind m f = (case m of Inl e \<Rightarrow> Inl e | Inr x \<Rightarrow> f x)"

text \<open>
  A column as an operand of \<^verbatim>\<open>//\<close>, \<^verbatim>\<open>*\<close>, \<^verbatim>\<open>-\<close> with a number: the cells of a numeric
  column; on an object column a string cell raises TypeError, and missing cells alone
  give missing results (the dtype of a column derived from them is not tracked: all its
  cells are missing).
\<close>

fun operand :: "column \<Rightarrow> error + rat option list" where
  "operand (Numeric xs) = Inr xs"
| "operand (Object ss) =
     (if list_all (\<lambda>c. c = None) ss then Inr (map (\<lambda>c. None) ss) else Inl TypeError)"

definition read_operand :: "dataframe \<Rightarrow> string \<Rightarrow> error + rat option list" where
  "read_operand df name = bind (getitem df name) operand"

text \<open>Line 102: \<^verbatim>\<open>(Year // 10) * 10\<close>, floor division.\<close>

definition decade_cell :: "rat option \<Rightarrow> rat option" where
  "decade_cell y = map_option (\<lambda>v. of_int \<lfloor>v / 10\<rfloor> * 10) y"

text \<open>Lines 105 to 109.\<close>

fun climate_risk_cell :: "rat option \<times> rat option \<times> rat option \<Rightarrow> rat option" where
  "climate_risk_cell (Some flood, Some drought, Some cyclone) =
     Some (flood * (3 / 10) + drought * (3 / 10) + cyclone * (4 / 10))"
| "climate_risk_cell other = None"

text \<open>Lines 112 to 116.\<close>

fun env_health_cell :: "rat option \<times> rat option \<times> rat option \<Rightarrow> rat option" where
  "env_health_cell (Some forest, Some aqi, Some renewable) =
     Some ((forest * (4 / 10) + (100 - aqi) * (3 / 10) + renewable * (3 / 10)) / 100)"
| "env_health_cell other = None"

text \<open>
  \<^verbatim>\<open>pd.cut(x, bins=..., labels=..., include_lowest=..., ordered=...)\<close> with
  \<^verbatim>\<open>right=True\<close> and \<^verbatim>\<open>duplicates='raise'\<close>, in the order pandas checks its arguments:
  the bin edges must increase and be unique, the values are located among the edges
  (a string cell raises TypeError), then the labels are checked: with \<^verbatim>\<open>ordered=True\<close>
  they must be unique, and there must be one label for each bin. The number of edges
  strictly below a value is its bin number; a value equal to the lowest edge belongs to
  bin 1 when \<^verbatim>\<open>include_lowest\<close> is set; bin 0 and bin \<open>length bins\<close> are out of range and
  give a missing cell.
\<close>

definition bin_id :: "rat list \<Rightarrow> bool \<Rightarrow> rat \<Rightarrow> nat" where
  "bin_id bins include_lowest v =
     (if include_lowest \<and> bins \<noteq> [] \<and> v = hd bins then 1
      else length (filter (\<lambda>b. b < v) bins))"

definition cut_cell :: "rat list \<Rightarrow> string list \<Rightarrow> bool \<Rightarrow> rat option \<Rightarrow> string option" where
  "cut_cell bins labels include_lowest c =
     (case c of
        None \<Rightarrow> None
      | Some v \<Rightarrow>
          let i = bin_id bins include_lowest v in
          if i = 0 \<or> i = length bins then None else Some (labels ! (i - 1)))"

definition pd_cut :: "column \<Rightarrow> rat list \<Rightarrow> string list \<Rightarrow> bool \<Rightarrow> bool \<Rightarrow> error + column" where
  "pd_cut x bins labels include_lowest ordered =
     (if \<not> sorted bins then Inl ValueError
      else if \<not> distinct bins \<and> length bins \<noteq> 2 then Inl ValueError
      else
        bind (operand x) (\<lambda>cells.
          if ordered \<and> \<not> distinct labels then Inl ValueError
          else if length labels + 1 \<noteq> length bins then Inl ValueError
          else Inr (Object (map (cut_cell bins labels include_lowest) cells))))"

definition season_bins :: "rat list" where
  "season_bins = [0, 2, 5, 8, 11, 12]"

definition season_labels :: "string list" where
  "season_labels = [''Winter'', ''Spring'', ''Summer'', ''Autumn'', ''Winter'']"

text \<open>Lines 119 to 125. The call does not pass \<^verbatim>\<open>ordered\<close>, whose default is True.\<close>

definition add_season :: "dataframe \<Rightarrow> error + dataframe" where
  "add_season df =
     (if ''Month'' \<in> set (columns df) then
        bind (getitem df ''Month'') (\<lambda>month.
        bind (pd_cut month season_bins season_labels True True) (\<lambda>season.
        Inr (setitem df ''Season'' season)))
      else Inr df)"

definition feature_engineering :: "dataframe \<Rightarrow> error + dataframe" where
  "feature_engineering df =
     bind (read_operand df ''Year'') (\<lambda>year.
     let df1 = setitem df ''Decade'' (Numeric (map decade_cell year)) in
     bind (read_operand df1 ''Flood_Impact_Score'') (\<lambda>flood.
     bind (read_operand df1 ''Drought_Severity'') (\<lambda>drought.
     bind (read_operand df1 ''Cyclone_Count'') (\<lambda>cyclone.
     let df2 = setitem df1 ''Climate_Risk_Score''
                 (Numeric (map climate_risk_cell (zip flood (zip drought cyclone)))) in
     bind (read_operand df2 ''Forest_Cover_Percent'') (\<lambda>forest.
     bind (read_operand df2 ''AQI'') (\<lambda>aqi.
     bind (read_operand df2 ''Renewable_Energy_Usage_Percent'') (\<lambda>renewable.
     let df3 = setitem df2 ''Environmental_Health_Index''
                 (Numeric (map env_health_cell (zip forest (zip aqi renewable)))) in
     add_season df3)))))))"

section \<open>split_by_region\<close>





text \<open>\<^verbatim>\<open>df[flags]\<close> keeps the rows whose flag is true, with their labels.\<close>

definition keep :: "bool list \<Rightarrow> 'a list \<Rightarrow> 'a list" where
  "keep flags xs = map snd (filter fst (zip flags xs))"

fun keep_col :: "bool list \<Rightarrow> column \<Rightarrow> column" where
  "keep_col flags (Numeric xs) = Numeric (keep flags xs)"
| "keep_col flags (Object ss) = Object (keep flags ss)"

definition select_rows :: "dataframe \<Rightarrow> bool list \<Rightarrow> dataframe" where
  "select_rows df flags =
     \<lparr>index = keep flags (index df), cols = map (\<lambda>(name, c). (name, keep_col flags c)) (cols df)\<rparr>"


section \<open>load_data and save_processed_data\<close>

text \<open>
  The two functions wrap one pandas call each in \<^verbatim>\<open>try ... except Exception\<close>. What the
  call does with the file system is outside the script, so its outcome is an argument of
  the model: it returns a value or raises. A raised exception is either of a class that
  derives from \<^verbatim>\<open>Exception\<close> (every parse and I/O failure of pandas is: OSError,
  ParserError, EmptyDataError, UnicodeDecodeError, ...) or one that derives from
  \<^verbatim>\<open>BaseException\<close> only (KeyboardInterrupt, SystemExit). The text handed to
  \<^verbatim>\<open>print\<close> is returned next to the result.
\<close>

datatype py_exception = Exception_subclass string | BaseException_only string

datatype 'a outcome = Returns 'a | Raises py_exception

datatype report =
    Loaded nat nat
  | Error_loading string
  | Saved string
  | Error_saving string

definition load_data ::
  "(string \<Rightarrow> py_exception + dataframe) \<Rightarrow> string \<Rightarrow> dataframe option outcome \<times> report list" where
  "load_data read_csv filepath =
     (case read_csv filepath of
        Inr df \<Rightarrow> (Returns (Some df), [Loaded (nrows df) (length (columns df))])
      | Inl (Exception_subclass e) \<Rightarrow> (Returns None, [Error_loading e])
      | Inl (BaseException_only e) \<Rightarrow> (Raises (BaseException_only e), []))"

definition save_processed_data ::
  "(dataframe \<Rightarrow> string \<Rightarrow> py_exception + unit) \<Rightarrow> dataframe \<Rightarrow> string \<Rightarrow> unit outcome \<times> report list" where
  "save_processed_data to_csv df output_path =
     (case to_csv df output_path of
        Inr u \<Rightarrow> (Returns (), [Saved output_path])
      | Inl (Exception_subclass e) \<Rightarrow> (Returns (), [Error_saving e])
      | Inl (BaseException_only e) \<Rightarrow> (Raises (BaseException_only e), []))"

section \<open>Example frames\<close>

text \<open>The row of the specification's scenario, first without and then with a month.\<close>

definition scenario_frame :: dataframe where
  "scenario_frame =
     \<lparr>index = [0],
      cols = [(''Year'', Numeric [Some 1995]),
              (''District'', Object [Some ''Dhaka'']),
              (''Flood_Impact_Score'', Numeric [Some 5]),
              (''Drought_Severity'', Numeric [Some 2]),
              (''Cyclone_Count'', Numeric [Some 1]),
              (''Forest_Cover_Percent'', Numeric [Some 20]),
              (''AQI'', Numeric [Some 150]),
              (''Renewable_Energy_Usage_Percent'', Numeric [Some 10])]\<rparr>"

definition month_frame :: dataframe where
  "month_frame =
     \<lparr>index = [0],
      cols = [(''Year'', Numeric [Some 1995]),
              (''Month'', Numeric [Some 1]),
              (''Flood_Impact_Score'', Numeric [Some 5]),
              (''Drought_Severity'', Numeric [Some 2]),
              (''Cyclone_Count'', Numeric [Some 1]),
              (''Forest_Cover_Percent'', Numeric [Some 20]),
              (''AQI'', Numeric [Some 150]),
              (''Renewable_Energy_Usage_Percent'', Numeric [Some 10])]\<rparr>"

text \<open>A frame whose only column is an object column without any value, and one whose
  only column is a numeric column without any value.\<close>

definition all_missing_object_frame :: dataframe where
  "all_missing_object_frame = \<lparr>index = [0, 1], cols = [(''District'', Object [None, None])]\<rparr>"

definition all_missing_numeric_frame :: dataframe where
  "all_missing_numeric_frame = \<lparr>index = [0, 1], cols = [(''AQI'', Numeric [None, None])]\<rparr>"

section \<open>Columns and cells, for the statements below\<close>

text \<open>
  What the two loops of \<^verbatim>\<open>clean_data\<close> do to one column: the first loop fills it, the
  second clips it when it is numeric. The lemmas \<open>fill_missing_effect\<close>,
  \<open>clip_outliers_effect\<close> and \<open>clean_data_effect\<close> below prove that the loops compute
  exactly this on every column.
\<close>

fun filled_column :: "column \<Rightarrow> column" where
  "filled_column (Numeric xs) = Numeric (fillna (median xs) xs)"
| "filled_column (Object ss) =
     Object (case mode ss of [] \<Rightarrow> ss | m # rest \<Rightarrow> fillna (Some m) ss)"

fun clipped_column :: "column \<Rightarrow> column" where
  "clipped_column (Numeric xs) = Numeric (clip_cells xs)"
| "clipped_column (Object ss) = Object ss"


text \<open>A frame of five rows with a missing district, a missing flood score and one
  extreme AQI value, with what \<^verbatim>\<open>clean_data\<close> and \<^verbatim>\<open>feature_engineering\<close> return on
  it.\<close>

definition survey_frame :: dataframe where
  "survey_frame =
     \<lparr>index = [0, 1, 2, 3, 4],
      cols = [(''Year'', Numeric [Some 1995, Some 2003, Some 2010, Some 2018, Some 2021]),
              (''District'', Object [Some ''Dhaka'', None, Some ''Khulna'', Some ''Rangpur'', Some ''Sylhet'']),
              (''Flood_Impact_Score'', Numeric [Some 5, Some 6, None, Some 7, Some 6]),
              (''Drought_Severity'', Numeric [Some 2, Some 2, Some 3, Some 2, Some 2]),
              (''Cyclone_Count'', Numeric [Some 1, Some 0, Some 2, Some 1, Some 1]),
              (''Forest_Cover_Percent'', Numeric [Some 20, Some 18, Some 17, Some 15, Some 14]),
              (''AQI'', Numeric [Some 1, Some 2, Some 3, Some 4, Some 100]),
              (''Renewable_Energy_Usage_Percent'', Numeric [Some 10, Some 11, Some 12, Some 13, Some 14])]\<rparr>"

definition survey_cleaned :: dataframe where
  "survey_cleaned =
     \<lparr>index = [0, 1, 2, 3, 4],
      cols = [(''Year'', Numeric [Some 1995, Some 2003, Some 2010, Some 2018, Some 2021]),
              (''District'', Object [Some ''Dhaka'', Some ''Dhaka'', Some ''Khulna'', Some ''Rangpur'', Some ''Sylhet'']),
              (''Flood_Impact_Score'', Numeric [Some 6, Some 6, Some 6, Some 6, Some 6]),
              (''Drought_Severity'', Numeric [Some 2, Some 2, Some 2, Some 2, Some 2]),
              (''Cyclone_Count'', Numeric [Some 1, Some 1, Some 1, Some 1, Some 1]),
              (''Forest_Cover_Percent'', Numeric [Some 20, Some 18, Some 17, Some 15, Some 14]),
              (''AQI'', Numeric [Some 1, Some 2, Some 3, Some 4, Some 7]),
              (''Renewable_Energy_Usage_Percent'', Numeric [Some 10, Some 11, Some 12, Some 13, Some 14])]\<rparr>"

definition survey_engineered :: dataframe where
  "survey_engineered =
     \<lparr>index = [0, 1, 2, 3, 4],
      cols = [(''Year'', Numeric [Some 1995, Some 2003, Some 2010, Some 2018, Some 2021]),
              (''District'', Object [Some ''Dhaka'', None, Some ''Khulna'', Some ''Rangpur'', Some ''Sylhet'']),
              (''Flood_Impact_Score'', Numeric [Some 5, Some 6, None, Some 7, Some 6]),
              (''Drought_Severity'', Numeric [Some 2, Some 2, Some 3, Some 2, Some 2]),
              (''Cyclone_Count'', Numeric [Some 1, Some 0, Some 2, Some 1, Some 1]),
              (''Forest_Cover_Percent'', Numeric [Some 20, Some 18, Some 17, Some 15, Some 14]),
              (''AQI'', Numeric [Some 1, Some 2, Some 3, Some 4, Some 100]),
              (''Renewable_Energy_Usage_Percent'', Numeric [Some 10, Some 11, Some 12, Some 13, Some 14]),
              (''Decade'', Numeric [Some 1990, Some 2000, Some 2010, Some 2010, Some 2020]),
              (''Climate_Risk_Score'', Numeric [Some (5 / 2), Some (12 / 5), None, Some (31 / 10), Some (14 / 5)]),
              (''Environmental_Health_Index'',
                 Numeric [Some (407 / 1000), Some (399 / 1000), Some (79 / 200), Some (387 / 1000), Some (49 / 500)])]\<rparr>"

text \<open>An object column in which two districts are equally frequent, and the frame
  \<^verbatim>\<open>clean_data\<close> returns on it.\<close>

definition tie_frame :: dataframe where
  "tie_frame =
     \<lparr>index = [0, 1, 2, 3, 4],
      cols = [(''District'',
                 Object [Some ''Khulna'', Some ''Dhaka'', None, Some ''Dhaka'', Some ''Khulna''])]\<rparr>"

definition tie_cleaned :: dataframe where
  "tie_cleaned =
     \<lparr>index = [0, 1, 2, 3, 4],
      cols = [(''District'',
                 Object [Some ''Khulna'', Some ''Dhaka'', Some ''Dhaka'', Some ''Dhaka'', Some ''Khulna''])]\<rparr>"

section \<open>The season column\<close>

lemma add_season_without_month:
  "''Month'' \<notin> set (columns df) \<Longrightarrow> add_season df = Inr df"
  by (simp add: add_season_def)

lemma season_labels_repeat: "\<not> distinct season_labels"
  by (simp add: season_labels_def)

lemma pd_cut_season_raises: "\<exists>e. pd_cut month season_bins season_labels True True = Inl e"
  by (cases "operand month") (simp_all add: pd_cut_def bind_def season_labels_repeat)

lemma add_season_with_month_raises:
  assumes "''Month'' \<in> set (columns df)"
  shows "\<exists>e. add_season df = Inl e"
proof (cases "getitem df ''Month''")
  case (Inl e)
  with assms show ?thesis by (simp add: add_season_def bind_def)
next
  case (Inr month)
  obtain e where "pd_cut month season_bins season_labels True True = Inl e"
    using pd_cut_season_raises by blast
  with Inr assms show ?thesis by (simp add: add_season_def bind_def)
qed

text \<open>With \<^verbatim>\<open>ordered=False\<close> the same bins and labels give the seasons the labels spell
  out: months 1 and 2 and month 12 are winter.\<close>

lemma pd_cut_unordered_months:
  "pd_cut (Numeric (map (\<lambda>n. Some (of_nat n)) [1..<13])) season_bins season_labels True False =
     Inr (Object (map Some
       [''Winter'', ''Winter'', ''Spring'', ''Spring'', ''Spring'', ''Summer'', ''Summer'',
        ''Summer'', ''Autumn'', ''Autumn'', ''Autumn'', ''Winter'']))"
  by code_simp

text \<open>
  Claim C1. The claim: a Season column is added exactly when the frame has a Month
  column, and with a Month column every month is binned to Winter, Spring, Summer,
  Autumn, Winter. The code reaches \<^verbatim>\<open>pd.cut\<close> with a label list in which Winter occurs
  twice and without \<^verbatim>\<open>ordered=False\<close>, so the call raises ValueError: on the frame with
  one row and month 1, \<^verbatim>\<open>feature_engineering\<close> returns no frame at all.
\<close>

theorem feature_engineering_month_raises:
  "feature_engineering month_frame = Inl ValueError"
  by code_simp

section \<open>Columns without any value\<close>

text \<open>
  Claim C3. The claim: \<^verbatim>\<open>clean_data\<close> raises no error on a frame with a column whose cells
  are all missing. On an object column without any value \<^verbatim>\<open>mode()\<close> is empty and
  \<^verbatim>\<open>mode()[0]\<close> raises KeyError, while the numeric branch passes such a column through.
\<close>

theorem clean_data_all_missing_object_raises:
  "clean_data all_missing_object_frame = Inl (KeyError ''0'')"
  by code_simp

section \<open>The boundary to the file system\<close>

text \<open>
  Claim C9. A failure of the pandas call inside \<^verbatim>\<open>load_data\<close> is reported and turned
  into the result None; a failure inside \<^verbatim>\<open>save_processed_data\<close> is reported and the
  function returns. Whenever the pandas call returns or fails with an exception that
  derives from Exception, neither function raises.
\<close>

theorem io_failures_do_not_propagate:
  "(read_csv filepath = Inl (Exception_subclass e) \<longrightarrow>
      load_data read_csv filepath = (Returns None, [Error_loading e])) \<and>
   (to_csv df output_path = Inl (Exception_subclass e') \<longrightarrow>
      save_processed_data to_csv df output_path = (Returns (), [Error_saving e'])) \<and>
   ((\<forall>b. read_csv filepath \<noteq> Inl (BaseException_only b)) \<longrightarrow>
      (\<exists>r. fst (load_data read_csv filepath) = Returns r)) \<and>
   ((\<forall>b. to_csv df output_path \<noteq> Inl (BaseException_only b)) \<longrightarrow>
      (\<exists>r. fst (save_processed_data to_csv df output_path) = Returns r))"
  by (auto simp: load_data_def save_processed_data_def split: sum.splits py_exception.splits)

theorem io_failures_do_not_propagate_witness:
  "load_data (\<lambda>p. Inl (Exception_subclass ''No such file or directory'')) ''climate.csv'' =
     (Returns None, [Error_loading ''No such file or directory'']) \<and>
   save_processed_data (\<lambda>d p. Inl (Exception_subclass ''Permission denied'')) scenario_frame ''out.csv'' =
     (Returns (), [Error_saving ''Permission denied'']) \<and>
   (\<exists>r. fst (load_data (\<lambda>p. Inl (Exception_subclass ''No such file or directory'')) ''climate.csv'') = Returns r) \<and>
   (\<exists>r. fst (save_processed_data (\<lambda>d p. Inl (Exception_subclass ''Permission denied'')) scenario_frame ''out.csv'') = Returns r)"
  using io_failures_do_not_propagate
          [of "\<lambda>p. Inl (Exception_subclass ''No such file or directory'')" "''climate.csv''"
              "''No such file or directory''"
              "\<lambda>d p. Inl (Exception_subclass ''Permission denied'')" scenario_frame "''out.csv''"
              "''Permission denied''"]
  by simp

section \<open>What clean_data does to each column\<close>

lemma update_distinct_map:
  "distinct (map fst al) \<Longrightarrow> k \<in> set (map fst al) \<Longrightarrow>
   AList.update k v al = map (\<lambda>(n, c). (n, if n = k then v else c)) al"
  by (induction al) (auto simp: rev_image_eqI intro!: map_idI[symmetric])

lemma fillna_no_missing: "isnull_sum cells = 0 \<Longrightarrow> fillna v cells = cells"
  by (induction cells) (auto simp: isnull_sum_def fillna_def split: option.splits if_splits)

lemma map_of_distinct_unique:
  "distinct (map fst al) \<Longrightarrow> map_of al k = Some c \<Longrightarrow> (k, c') \<in> set al \<Longrightarrow> c' = c"
  by (metis map_of_is_SomeI option.inject)

lemma map_columns_cong:
  assumes "distinct (map fst al)" "map_of al k = Some c" "g c = v"
  shows "map (\<lambda>(n, c). (n, if n = k then v else c)) al = map (\<lambda>(n, c). (n, if n = k then g c else c)) al"
proof -
  have "c' = c" if "(k, c') \<in> set al" for c'
    using assms(1,2) that by (rule map_of_distinct_unique)
  with assms(3) show ?thesis by auto
qed

lemma map_columns_id:
  assumes "distinct (map fst al)" "map_of al k = Some c" "g c = c"
  shows "map (\<lambda>(n, c). (n, if n = k then g c else c)) al = al"
proof -
  have "c' = c" if "(k, c') \<in> set al" for c'
    using assms(1,2) that by (rule map_of_distinct_unique)
  with assms(3) show ?thesis by (auto intro!: map_idI)
qed

lemma setitem_effect:
  assumes "distinct (map fst (cols df))" "map_of (cols df) k = Some c" "g c = v"
  shows "cols (setitem df k v) = map (\<lambda>(n, c). (n, if n = k then g c else c)) (cols df)"
proof -
  have "k \<in> set (map fst (cols df))"
    using assms(2) by (metis map_of_eq_None_iff option.distinct(1) set_map)
  hence "AList.update k v (cols df) = map (\<lambda>(n, c). (n, if n = k then v else c)) (cols df)"
    using assms(1) by (simp add: update_distinct_map)
  also have "\<dots> = map (\<lambda>(n, c). (n, if n = k then g c else c)) (cols df)"
    using assms by (rule map_columns_cong)
  finally show ?thesis by (simp add: setitem_def)
qed

lemma setitem_index: "index (setitem df k v) = index df"
  by (simp add: setitem_def)

lemma fill_missing_col_effect:
  assumes "distinct (columns df)" and "fill_missing_col col df = Inr df'"
  shows "index df' = index df \<and>
         cols df' = map (\<lambda>(n, c). (n, if n = col then filled_column c else c)) (cols df)"
proof -
  from assms(2) obtain c where c: "map_of (cols df) col = Some c"
    by (auto simp: fill_missing_col_def getitem_def split: option.splits)
  have d: "distinct (map fst (cols df))" using assms(1) by (simp add: columns_def)
  show ?thesis
  proof (cases c)
    case (Numeric xs)
    show ?thesis
    proof (cases "isnull_sum xs > 0")
      case True
      with assms(2) c Numeric have "df' = setitem df col (Numeric (fillna (median xs) xs))"
        by (simp add: fill_missing_col_def getitem_def)
      moreover have "filled_column c = Numeric (fillna (median xs) xs)" using Numeric by simp
      ultimately show ?thesis
        using setitem_effect[OF d c, where g = filled_column] by (simp add: setitem_index)
    next
      case False
      with assms(2) c Numeric have "df' = df"
        by (simp add: fill_missing_col_def getitem_def)
      moreover have "filled_column c = c" using Numeric False by (simp add: fillna_no_missing)
      ultimately show ?thesis using map_columns_id[OF d c] by simp
    qed
  next
    case (Object ss)
    show ?thesis
    proof (cases "isnull_sum ss > 0")
      case True
      with assms(2) c Object obtain m rest where m: "mode ss = m # rest"
        and "df' = setitem df col (Object (fillna (Some m) ss))"
        by (auto simp: fill_missing_col_def getitem_def first_item_def split: list.splits)
      moreover have "filled_column c = Object (fillna (Some m) ss)" using Object m by simp
      ultimately show ?thesis
        using setitem_effect[OF d c, where g = filled_column] by (simp add: setitem_index)
    next
      case False
      with assms(2) c Object have "df' = df"
        by (simp add: fill_missing_col_def getitem_def)
      moreover have "filled_column c = c" using Object False
        by (simp add: fillna_no_missing split: list.splits)
      ultimately show ?thesis using map_columns_id[OF d c] by simp
    qed
  qed
qed

lemma fill_missing_effect:
  "distinct (columns df) \<Longrightarrow> distinct names \<Longrightarrow> fill_missing names df = Inr df' \<Longrightarrow>
   index df' = index df \<and>
   cols df' = map (\<lambda>(n, c). (n, if n \<in> set names then filled_column c else c)) (cols df)"
proof (induction names arbitrary: df)
  case Nil
  then show ?case by (simp add: map_idI)
next
  case (Cons col rest)
  from Cons.prems(3) obtain df1 where
    step: "fill_missing_col col df = Inr df1" and loop: "fill_missing rest df1 = Inr df'"
    by (auto split: sum.splits)
  from fill_missing_col_effect[OF Cons.prems(1) step] have
    i1: "index df1 = index df" and
    c1: "cols df1 = map (\<lambda>(n, c). (n, if n = col then filled_column c else c)) (cols df)"
    by simp_all
  have "map fst (cols df1) = map fst (cols df)"
    unfolding c1 by (induction "cols df") (auto simp: case_prod_unfold)
  hence d1: "distinct (columns df1)"
    using Cons.prems(1) by (simp add: columns_def)
  from Cons.IH[OF d1 _ loop] Cons.prems(2) have
    i2: "index df' = index df1" and
    c2: "cols df' = map (\<lambda>(n, c). (n, if n \<in> set rest then filled_column c else c)) (cols df1)"
    by simp_all
  have "col \<notin> set rest" using Cons.prems(2) by simp
  hence c3: "cols df' = map (\<lambda>(n, c). (n, if n \<in> set (col # rest) then filled_column c else c)) (cols df)"
    unfolding c2 c1 by (auto simp: case_prod_unfold)
  have "index df' = index df" using i1 i2 by simp
  with c3 show ?case by blast
qed

lemma map_fst_update_values:
  "map fst (map (\<lambda>(n, c). (n, h n c)) al) = map fst al"
  by (induction al) auto

lemma clip_col_effect:
  assumes "distinct (columns df)" and "clip_col col df = Inr df'"
  shows "index df' = index df \<and>
         cols df' = map (\<lambda>(n, c). (n, if n = col then clipped_column c else c)) (cols df)"
proof -
  from assms(2) obtain xs where c: "map_of (cols df) col = Some (Numeric xs)"
    and df': "df' = setitem df col (Numeric (clip_cells xs))"
    by (auto simp: clip_col_def getitem_def split: option.splits column.splits)
  have d: "distinct (map fst (cols df))" using assms(1) by (simp add: columns_def)
  have "clipped_column (Numeric xs) = Numeric (clip_cells xs)" by simp
  from setitem_effect[OF d c, where g = clipped_column, OF this] df' show ?thesis
    by (simp add: setitem_index)
qed

lemma clip_outliers_effect:
  "distinct (columns df) \<Longrightarrow> distinct names \<Longrightarrow> clip_outliers names df = Inr df' \<Longrightarrow>
   index df' = index df \<and>
   cols df' = map (\<lambda>(n, c). (n, if n \<in> set names then clipped_column c else c)) (cols df)"
proof (induction names arbitrary: df)
  case Nil
  then show ?case by (simp add: map_idI)
next
  case (Cons col rest)
  from Cons.prems(3) obtain df1 where
    step: "clip_col col df = Inr df1" and loop: "clip_outliers rest df1 = Inr df'"
    by (auto split: sum.splits)
  from clip_col_effect[OF Cons.prems(1) step] have
    i1: "index df1 = index df" and
    c1: "cols df1 = map (\<lambda>(n, c). (n, if n = col then clipped_column c else c)) (cols df)"
    by simp_all
  have "map fst (cols df1) = map fst (cols df)"
    unfolding c1 by (rule map_fst_update_values)
  hence d1: "distinct (columns df1)"
    using Cons.prems(1) by (simp add: columns_def)
  from Cons.IH[OF d1 _ loop] Cons.prems(2) have
    i2: "index df' = index df1" and
    c2: "cols df' = map (\<lambda>(n, c). (n, if n \<in> set rest then clipped_column c else c)) (cols df1)"
    by simp_all
  have "col \<notin> set rest" using Cons.prems(2) by simp
  hence c3: "cols df' = map (\<lambda>(n, c). (n, if n \<in> set (col # rest) then clipped_column c else c)) (cols df)"
    unfolding c2 c1 by (auto simp: case_prod_unfold)
  have "index df' = index df" using i1 i2 by simp
  with c3 show ?case by blast
qed

lemma distinct_numeric_cols: "distinct (columns df) \<Longrightarrow> distinct (numeric_cols df)"
  by (simp add: columns_def numeric_cols_def distinct_map_filter)

lemma clipped_numeric_cols:
  "map (\<lambda>(n, c). (n, if n \<in> set (numeric_cols df) then clipped_column c else c)) (cols df) =
   map (\<lambda>(n, c). (n, clipped_column c)) (cols df)"
proof (rule map_cong[OF refl])
  fix p assume p: "p \<in> set (cols df)"
  obtain n c where nc: "p = (n, c)" by (cases p)
  show "(case p of (n, c) \<Rightarrow> (n, if n \<in> set (numeric_cols df) then clipped_column c else c)) =
        (case p of (n, c) \<Rightarrow> (n, clipped_column c))"
  proof (cases c)
    case (Numeric xs)
    with p nc have "n \<in> set (numeric_cols df)"
      by (force simp: numeric_cols_def)
    with nc show ?thesis by simp
  next
    case (Object ss)
    with nc show ?thesis by simp
  qed
qed

lemma clean_data_effect:
  assumes "distinct (columns df)" and "clean_data df = Inr df'"
  shows "index df' = index df"
    and "cols df' = map (\<lambda>(n, c). (n, clipped_column (filled_column c))) (cols df)"
proof -
  from assms(2) obtain filled where
    f: "fill_missing (columns df) df = Inr filled" and
    c: "clip_outliers (numeric_cols filled) filled = Inr df'"
    by (auto simp: clean_data_def split: sum.splits)
  from fill_missing_effect[OF assms(1) assms(1) f] have
    fi: "index filled = index df" and
    fc: "cols filled = map (\<lambda>(n, c). (n, if n \<in> set (columns df) then filled_column c else c)) (cols df)"
    by simp_all
  have fc': "cols filled = map (\<lambda>(n, c). (n, filled_column c)) (cols df)"
    unfolding fc by (rule map_cong[OF refl]) (force simp: columns_def)
  have "map fst (cols filled) = map fst (cols df)"
    unfolding fc' by (rule map_fst_update_values)
  hence df: "distinct (columns filled)" using assms(1) by (simp add: columns_def)
  from clip_outliers_effect[OF df distinct_numeric_cols[OF df] c] have
    ci: "index df' = index filled" and
    cc: "cols df' = map (\<lambda>(n, c). (n, if n \<in> set (numeric_cols filled) then clipped_column c else c)) (cols filled)"
    by simp_all
  show "index df' = index df" using ci fi by simp
  have "cols df' = map (\<lambda>(n, c). (n, clipped_column c)) (cols filled)"
    using cc by (simp only: clipped_numeric_cols)
  thus "cols df' = map (\<lambda>(n, c). (n, clipped_column (filled_column c))) (cols df)"
    by (simp add: fc' case_prod_unfold comp_def)
qed

section \<open>Row counts and derived columns\<close>

lemma col_length_filled: "col_length (filled_column c) = col_length c"
  by (cases c) (auto simp: fillna_def split: list.splits)

lemma length_clip_cells: "length (clip_cells xs) = length xs"
  by (auto simp: clip_cells_def replace_above_def replace_below_def split: option.splits)

lemma col_length_clipped: "col_length (clipped_column c) = col_length c"
  by (cases c) (auto simp: length_clip_cells)

lemma clean_data_wf:
  assumes "wf_dataframe df" and "clean_data df = Inr df'"
  shows "nrows df' = nrows df" and "wf_dataframe df'"
proof -
  have d: "distinct (columns df)" using assms(1) by (simp add: wf_dataframe_def)
  note eff = clean_data_effect[OF d assms(2)]
  show n: "nrows df' = nrows df" using eff(1) by (simp add: nrows_def)
  have "columns df' = columns df"
    unfolding columns_def eff(2) by (rule map_fst_update_values)
  moreover have "list_all (\<lambda>(name, c). col_length c = nrows df') (cols df')"
    using assms(1) unfolding eff(2) n wf_dataframe_def
    by (auto simp: list_all_iff col_length_clipped col_length_filled)
  moreover have "distinct (index df')" using assms(1) eff(1) by (simp add: wf_dataframe_def)
  ultimately show "wf_dataframe df'" using d by (simp add: wf_dataframe_def)
qed

lemma set_update_cases:
  "(n, c) \<in> set (AList.update k v al) \<Longrightarrow> (n, c) \<in> set al \<or> (n, c) = (k, v)"
  by (induction al) (auto split: if_splits)

lemma setitem_wf:
  assumes "wf_dataframe df" and "col_length c = nrows df"
  shows "wf_dataframe (setitem df k c)"
proof -
  have "distinct (columns (setitem df k c))"
    using assms(1) by (simp add: wf_dataframe_def columns_def setitem_def distinct_update)
  moreover have "nrows (setitem df k c) = nrows df"
    by (simp add: nrows_def setitem_def)
  moreover have "list_all (\<lambda>(name, c). col_length c = nrows df) (cols (setitem df k c))"
    using assms by (auto simp: wf_dataframe_def list_all_iff setitem_def dest!: set_update_cases)
  moreover have "distinct (index (setitem df k c))"
    using assms(1) by (simp add: wf_dataframe_def setitem_def)
  ultimately show ?thesis by (simp add: wf_dataframe_def)
qed

lemma nrows_setitem: "nrows (setitem df k c) = nrows df"
  by (simp add: nrows_def setitem_def)

lemma getitem_setitem:
  "getitem (setitem df k c) n = (if n = k then Inr c else getitem df n)"
  by (simp add: getitem_def setitem_def update_conv')

lemma getitem_length:
  "wf_dataframe df \<Longrightarrow> getitem df n = Inr c \<Longrightarrow> col_length c = nrows df"
  by (auto simp: wf_dataframe_def getitem_def list_all_iff split: option.splits dest!: map_of_SomeD)

lemma operand_length: "operand c = Inr xs \<Longrightarrow> length xs = col_length c"
  by (cases c) (auto split: if_splits)

lemma read_operand_length:
  "wf_dataframe df \<Longrightarrow> read_operand df n = Inr xs \<Longrightarrow> length xs = nrows df"
  by (auto simp: read_operand_def bind_def split: sum.splits)
     (metis getitem_length operand_length)

lemma read_operand_setitem:
  "n \<noteq> k \<Longrightarrow> read_operand (setitem df k c) n = read_operand df n"
  by (simp add: read_operand_def getitem_setitem)


lemma columns_setitem: "set (columns (setitem df k c)) = insert k (set (columns df))"
  by (auto simp: columns_def setitem_def update_keys)

text \<open>What a successful run of feature_engineering returns.\<close>

lemma feature_engineering_result:
  assumes "feature_engineering df = Inr df'"
  obtains year flood drought cyclone forest aqi renewable where
    "read_operand df ''Year'' = Inr year"
    "read_operand df ''Flood_Impact_Score'' = Inr flood"
    "read_operand df ''Drought_Severity'' = Inr drought"
    "read_operand df ''Cyclone_Count'' = Inr cyclone"
    "read_operand df ''Forest_Cover_Percent'' = Inr forest"
    "read_operand df ''AQI'' = Inr aqi"
    "read_operand df ''Renewable_Energy_Usage_Percent'' = Inr renewable"
    "''Month'' \<notin> set (columns df)"
    "df' = setitem (setitem (setitem df ''Decade'' (Numeric (map decade_cell year)))
              ''Climate_Risk_Score'' (Numeric (map climate_risk_cell (zip flood (zip drought cyclone)))))
              ''Environmental_Health_Index'' (Numeric (map env_health_cell (zip forest (zip aqi renewable))))"
proof -
  from assms obtain year where y: "read_operand df ''Year'' = Inr year"
    by (auto simp: feature_engineering_def bind_def split: sum.splits)
  define df1 where "df1 = setitem df ''Decade'' (Numeric (map decade_cell year))"
  from assms y obtain flood drought cyclone where
    f: "read_operand df1 ''Flood_Impact_Score'' = Inr flood" and
    d: "read_operand df1 ''Drought_Severity'' = Inr drought" and
    c: "read_operand df1 ''Cyclone_Count'' = Inr cyclone"
    by (auto simp: feature_engineering_def bind_def df1_def Let_def split: sum.splits)
  define df2 where "df2 = setitem df1 ''Climate_Risk_Score''
      (Numeric (map climate_risk_cell (zip flood (zip drought cyclone))))"
  from assms y f d c obtain forest aqi renewable where
    fo: "read_operand df2 ''Forest_Cover_Percent'' = Inr forest" and
    a: "read_operand df2 ''AQI'' = Inr aqi" and
    r: "read_operand df2 ''Renewable_Energy_Usage_Percent'' = Inr renewable"
    by (auto simp: feature_engineering_def bind_def df1_def[symmetric] df2_def[symmetric] Let_def split: sum.splits)
  define df3 where "df3 = setitem df2 ''Environmental_Health_Index''
      (Numeric (map env_health_cell (zip forest (zip aqi renewable))))"
  from assms y f d c fo a r have s: "add_season df3 = Inr df'"
    by (simp add: feature_engineering_def bind_def df1_def[symmetric] df2_def[symmetric] df3_def[symmetric] Let_def)
  have nm: "''Month'' \<notin> set (columns df3)"
    using add_season_with_month_raises[of df3] s by auto
  hence "df' = df3" using s by (simp add: add_season_without_month)
  moreover have "''Month'' \<notin> set (columns df)"
    using nm by (simp add: df3_def df2_def df1_def columns_setitem)
  ultimately show ?thesis
    using that y f d c fo a r
    by (simp add: df1_def df2_def df3_def read_operand_setitem)
qed

lemma survey_frame_wf: "wf_dataframe survey_frame"
  by code_simp

lemma survey_frame_cleaned: "clean_data survey_frame = Inr survey_cleaned"
  by code_simp

lemma survey_frame_engineered: "feature_engineering survey_frame = Inr survey_engineered"
  by code_simp




text \<open>
  Claim C7. On a well-formed frame, the frame \<^verbatim>\<open>clean_data\<close> returns and the frame
  \<^verbatim>\<open>feature_engineering\<close> returns have the row labels of the input, hence as many rows,
  and every column of the result has one cell for each of these rows: cleaning clips
  and never removes, feature derivation only adds columns.
\<close>

theorem row_count_invariant:
  "wf_dataframe df \<longrightarrow>
     (clean_data df = Inr cleaned \<longrightarrow>
        index cleaned = index df \<and> nrows cleaned = nrows df \<and> wf_dataframe cleaned) \<and>
     (feature_engineering df = Inr engineered \<longrightarrow>
        index engineered = index df \<and> nrows engineered = nrows df \<and> wf_dataframe engineered)"
proof (intro impI conjI)
  assume wf: "wf_dataframe df"
  hence d: "distinct (columns df)" by (simp add: wf_dataframe_def)
  {
    assume c: "clean_data df = Inr cleaned"
    show "index cleaned = index df" using clean_data_effect(1)[OF d c] .
    show "nrows cleaned = nrows df" using clean_data_wf(1)[OF wf c] .
    show "wf_dataframe cleaned" using clean_data_wf(2)[OF wf c] .
  }
  assume f: "feature_engineering df = Inr engineered"
  obtain year flood drought cyclone forest aqi renewable
    where ops: "read_operand df ''Year'' = Inr year"
      "read_operand df ''Flood_Impact_Score'' = Inr flood"
      "read_operand df ''Drought_Severity'' = Inr drought"
      "read_operand df ''Cyclone_Count'' = Inr cyclone"
      "read_operand df ''Forest_Cover_Percent'' = Inr forest"
      "read_operand df ''AQI'' = Inr aqi"
      "read_operand df ''Renewable_Energy_Usage_Percent'' = Inr renewable"
    and "''Month'' \<notin> set (columns df)"
    and res: "engineered = setitem (setitem (setitem df ''Decade'' (Numeric (map decade_cell year)))
              ''Climate_Risk_Score'' (Numeric (map climate_risk_cell (zip flood (zip drought cyclone)))))
              ''Environmental_Health_Index'' (Numeric (map env_health_cell (zip forest (zip aqi renewable))))"
    by (rule feature_engineering_result[OF f])
  note len = ops[THEN read_operand_length[OF wf]]
  show "index engineered = index df" by (simp add: res setitem_index)
  show "nrows engineered = nrows df" by (simp add: res nrows_setitem)
  show "wf_dataframe engineered"
    unfolding res by (intro setitem_wf wf) (simp_all add: len nrows_setitem)
qed



theorem row_count_invariant_witness:
  "wf_dataframe survey_frame \<and>
   clean_data survey_frame = Inr survey_cleaned \<and>
   feature_engineering survey_frame = Inr survey_engineered \<and>
   nrows survey_frame = 5 \<and>
   nrows survey_cleaned = 5 \<and> wf_dataframe survey_cleaned \<and>
   nrows survey_engineered = 5 \<and> wf_dataframe survey_engineered"
proof -
  have n: "nrows survey_frame = 5" by (simp add: nrows_def survey_frame_def)
  from row_count_invariant[of survey_frame survey_cleaned survey_engineered]
    survey_frame_wf survey_frame_cleaned survey_frame_engineered n
  show ?thesis by simp
qed


section \<open>The regional groups\<close>

lemma keep_Nil [simp]: "keep [] xs = []" "keep fs [] = []"
  by (simp_all add: keep_def)

lemma keep_Cons [simp]: "keep (f # fs) (x # xs) = (if f then x # keep fs xs else keep fs xs)"
  by (simp add: keep_def)

lemma length_keep:
  "length fs = length xs \<Longrightarrow> length (keep fs xs) = length (filter (\<lambda>f. f) fs)"
  by (induction fs xs rule: list_induct2) auto







lemma index_select_rows: "index (select_rows df fs) = keep fs (index df)"
  by (simp add: select_rows_def)

lemma nrows_select_rows:
  "length fs = nrows df \<Longrightarrow> nrows (select_rows df fs) = length (filter (\<lambda>f. f) fs)"
  by (simp add: nrows_def index_select_rows length_keep)




section \<open>The fill value of an object column\<close>

lemma set_dropna: "x \<in> set (dropna cells) \<longleftrightarrow> Some x \<in> set cells"
  by (induction cells rule: dropna.induct) auto

lemma count_dropna: "count_list (dropna cells) x = count_list cells (Some x)"
  by (induction cells rule: dropna.induct) auto

lemma foldr_max_upper: "x \<in> set xs \<Longrightarrow> f x \<le> foldr max (map f xs) (0::nat)"
  by (induction xs) (auto simp: le_max_iff_disj)

lemma foldr_max_attained:
  "xs \<noteq> [] \<Longrightarrow> \<exists>x \<in> set xs. f x = foldr max (map f xs) (0::nat)"
proof (induction xs)
  case Nil
  then show ?case by simp
next
  case (Cons x xs)
  show ?case
  proof (cases "xs = []")
    case True
    then show ?thesis by simp
  next
    case False
    with Cons.IH obtain y where y: "y \<in> set xs" "f y = foldr max (map f xs) 0" by blast
    hence e: "foldr max (map f (x # xs)) 0 = max (f x) (f y)" by simp
    show ?thesis
    proof (cases "f x \<le> f y")
      case True
      hence "f y = foldr max (map f (x # xs)) 0" unfolding e by simp
      with y(1) show ?thesis by (intro bexI[of _ y]) simp_all
    next
      case False
      hence "f x = foldr max (map f (x # xs)) 0" unfolding e by simp
      thus ?thesis by (intro bexI[of _ x]) simp_all
    qed
  qed
qed

lemma mode_empty_iff: "mode cells = [] \<longleftrightarrow> dropna cells = []"
proof
  assume e: "mode cells = []"
  show "dropna cells = []"
  proof (rule ccontr)
    assume ne: "dropna cells \<noteq> []"
    from foldr_max_attained[OF ne, of "count_list (dropna cells)"]
    obtain v where "v \<in> set (dropna cells)"
      "count_list (dropna cells) v = foldr max (map (count_list (dropna cells)) (dropna cells)) 0"
      by blast
    hence "v \<in> set (mode cells)" by (simp add: mode_def Let_def)
    with e show False by simp
  qed
next
  assume "dropna cells = []"
  then show "mode cells = []" by (simp add: mode_def)
qed

lemma mode_head:
  assumes "mode cells = m # rest"
  shows "Some m \<in> set cells"
    and "count_list cells (Some v) \<le> count_list cells (Some m)"
    and "count_list cells (Some v) = count_list cells (Some m) \<Longrightarrow> m \<le> v"
proof -
  let ?vs = "dropna cells"
  let ?top = "foldr max (map (count_list ?vs) ?vs) 0"
  let ?L = "remdups (filter (\<lambda>v. count_list ?vs v = ?top) ?vs)"
  have mode: "mode cells = sort ?L" by (simp add: mode_def Let_def)
  have "m \<in> set (sort ?L)" using assms mode by simp
  hence m: "m \<in> set ?vs" "count_list ?vs m = ?top" by simp_all
  show "Some m \<in> set cells" using m(1) by (simp add: set_dropna)
  show le: "count_list cells (Some v) \<le> count_list cells (Some m)"
  proof (cases "v \<in> set ?vs")
    case True
    from foldr_max_upper[OF True, of "count_list ?vs"] m(2)
    show ?thesis by (simp add: count_dropna)
  next
    case False
    hence "count_list ?vs v = 0" by (simp add: count_list_0_iff)
    thus ?thesis by (simp add: count_dropna)
  qed
  assume eq: "count_list cells (Some v) = count_list cells (Some m)"
  have "count_list ?vs m \<noteq> 0" using m(1) by (simp add: count_list_0_iff)
  with eq have "v \<in> set ?vs"
    by (metis count_dropna count_list_0_iff)
  moreover have "count_list ?vs v = ?top" using eq m(2) by (simp add: count_dropna)
  ultimately have "v \<in> set (sort ?L)" by simp
  moreover have "sorted (m # rest)" using assms mode sorted_sort by metis
  ultimately show "m \<le> v" using assms mode by (metis set_ConsD sorted_simps(2) order_refl)
qed

lemma fill_missing_mode_nonempty:
  "fill_missing names df = Inr df' \<Longrightarrow> distinct (columns df) \<Longrightarrow> col \<in> set names \<Longrightarrow>
   map_of (cols df) col = Some (Object ss) \<Longrightarrow> isnull_sum ss > 0 \<Longrightarrow> mode ss \<noteq> []"
proof (induction names arbitrary: df)
  case Nil
  then show ?case by simp
next
  case (Cons c rest)
  from Cons.prems(1) obtain df1 where
    step: "fill_missing_col c df = Inr df1" and loop: "fill_missing rest df1 = Inr df'"
    by (auto split: sum.splits)
  show ?case
  proof (cases "c = col")
    case True
    with step Cons.prems(4,5) show ?thesis
      by (auto simp: fill_missing_col_def getitem_def first_item_def split: list.splits)
  next
    case False
    from fill_missing_col_effect[OF Cons.prems(2) step] have
      c1: "cols df1 = map (\<lambda>(n, x). (n, if n = c then filled_column x else x)) (cols df)"
      by simp
    have "map fst (cols df1) = map fst (cols df)"
      unfolding c1 by (rule map_fst_update_values)
    hence d1: "distinct (columns df1)" using Cons.prems(2) by (simp add: columns_def)
    have "(col, Object ss) \<in> set (cols df)" using Cons.prems(4) by (rule map_of_SomeD)
    hence "(col, Object ss) \<in> set (cols df1)" unfolding c1 using False by force
    hence "map_of (cols df1) col = Some (Object ss)"
      using d1 by (simp add: columns_def)
    moreover have "col \<in> set rest" using Cons.prems(3) False by simp
    ultimately show ?thesis using Cons.IH[OF loop d1] Cons.prems(5) by blast
  qed
qed

lemma map_of_map_values:
  "map_of (map (\<lambda>(n, c). (n, g c)) al) k = map_option g (map_of al k)"
  by (induction al) auto

lemma clean_data_getitem:
  assumes "distinct (columns df)" "clean_data df = Inr df'" "getitem df col = Inr c"
  shows "getitem df' col = Inr (clipped_column (filled_column c))"
proof -
  have "map_of (cols df) col = Some c"
    using assms(3) by (auto simp: getitem_def split: option.splits)
  thus ?thesis
    unfolding getitem_def clean_data_effect(2)[OF assms(1,2)]
    by (simp add: map_of_map_values[where g = "\<lambda>c. clipped_column (filled_column c)"])
qed

text \<open>
  Claim C10. When \<^verbatim>\<open>clean_data\<close> returns, a missing cell of an object column is filled
  with a value of that column that is most frequent among the non-missing cells and
  that is the smallest, in the order of strings, of all values that frequent.
\<close>

theorem mode_fill_smallest_tie:
  "wf_dataframe df \<and> clean_data df = Inr df' \<and> getitem df col = Inr (Object ss) \<and>
   i < length ss \<and> ss ! i = None \<longrightarrow>
     (\<exists>m ss'. getitem df' col = Inr (Object ss') \<and> ss' ! i = Some m \<and>
        Some m \<in> set ss \<and>
        (\<forall>v. count_list ss (Some v) \<le> count_list ss (Some m)) \<and>
        (\<forall>v. count_list ss (Some v) = count_list ss (Some m) \<longrightarrow> m \<le> v))"
proof (intro impI, elim conjE)
  assume wf: "wf_dataframe df" and cd: "clean_data df = Inr df'"
    and g: "getitem df col = Inr (Object ss)" and i: "i < length ss" and none: "ss ! i = None"
  have d: "distinct (columns df)" using wf by (simp add: wf_dataframe_def)
  have mo: "map_of (cols df) col = Some (Object ss)"
    using g by (auto simp: getitem_def split: option.splits)
  hence col: "col \<in> set (columns df)"
    by (metis columns_def map_of_eq_None_iff option.distinct(1) set_map)
  have "None \<in> set ss" using i none by (metis nth_mem)
  hence nul: "isnull_sum ss > 0" by (auto simp: isnull_sum_def filter_empty_conv)
  from cd obtain filled where f: "fill_missing (columns df) df = Inr filled"
    by (auto simp: clean_data_def split: sum.splits)
  from fill_missing_mode_nonempty[OF f d col mo nul]
  obtain m rest where m: "mode ss = m # rest" by (cases "mode ss") auto
  have "getitem df' col = Inr (Object (fillna (Some m) ss))"
    using clean_data_getitem[OF d cd g] m by simp
  moreover have "fillna (Some m) ss ! i = Some m" using i none by (simp add: fillna_def)
  ultimately show "\<exists>m ss'. getitem df' col = Inr (Object ss') \<and> ss' ! i = Some m \<and>
        Some m \<in> set ss \<and>
        (\<forall>v. count_list ss (Some v) \<le> count_list ss (Some m)) \<and>
        (\<forall>v. count_list ss (Some v) = count_list ss (Some m) \<longrightarrow> m \<le> v)"
    using mode_head[OF m] by blast
qed

theorem mode_fill_smallest_tie_witness:
  "wf_dataframe tie_frame \<and> clean_data tie_frame = Inr tie_cleaned \<and>
   getitem tie_frame ''District'' =
     Inr (Object [Some ''Khulna'', Some ''Dhaka'', None, Some ''Dhaka'', Some ''Khulna'']) \<and>
   getitem tie_cleaned ''District'' =
     Inr (Object [Some ''Khulna'', Some ''Dhaka'', Some ''Dhaka'', Some ''Dhaka'', Some ''Khulna'']) \<and>
   count_list [Some ''Khulna'', Some ''Dhaka'', None, Some ''Dhaka'', Some ''Khulna''] (Some ''Khulna'') =
     count_list [Some ''Khulna'', Some ''Dhaka'', None, Some ''Dhaka'', Some ''Khulna''] (Some ''Dhaka'') \<and>
   ''Dhaka'' \<le> ''Khulna''"
proof -
  let ?ss = "[Some ''Khulna'', Some ''Dhaka'', None, Some ''Dhaka'', Some ''Khulna'']"
  have wf: "wf_dataframe tie_frame" by code_simp
  have cd: "clean_data tie_frame = Inr tie_cleaned" by code_simp
  have g: "getitem tie_frame ''District'' = Inr (Object ?ss)" by code_simp
  have g': "getitem tie_cleaned ''District'' =
     Inr (Object [Some ''Khulna'', Some ''Dhaka'', Some ''Dhaka'', Some ''Dhaka'', Some ''Khulna''])"
    by code_simp
  have c: "count_list ?ss (Some ''Khulna'') = count_list ?ss (Some ''Dhaka'')" by simp
  from mode_fill_smallest_tie[of tie_frame tie_cleaned "''District''" ?ss 2] wf cd g g'
  have "\<forall>v. count_list ?ss (Some v) = count_list ?ss (Some ''Dhaka'') \<longrightarrow> ''Dhaka'' \<le> v"
    by simp
  with c have "''Dhaka'' \<le> ''Khulna''" by blast
  with wf cd g g' c show ?thesis by blast
qed

section \<open>Quartiles and clipping\<close>

text \<open>The interpolated value at position \<open>h\<close> of a sorted list.\<close>

lemma interpolation_bounds:
  fixes s :: "rat list"
  assumes "sorted s" "lo \<le> hi" "hi < length s" "0 \<le> f" "f \<le> 1"
  shows "s ! lo \<le> s ! lo + f * (s ! hi - s ! lo)"
    and "s ! lo + f * (s ! hi - s ! lo) \<le> s ! hi"
proof -
  have d: "0 \<le> s ! hi - s ! lo"
    using assms(1-3) by (simp add: sorted_nth_mono)
  show "s ! lo \<le> s ! lo + f * (s ! hi - s ! lo)"
    using d assms(4) by simp
  have "f * (s ! hi - s ! lo) \<le> 1 * (s ! hi - s ! lo)"
    using d assms(5) by (rule mult_right_mono[rotated])
  thus "s ! lo + f * (s ! hi - s ! lo) \<le> s ! hi" by simp
qed

lemma quantile_Some:
  assumes "quantile q cells = Some v"
  defines "s \<equiv> sort (dropna cells)"
  defines "h \<equiv> of_nat (length s - 1) * q"
  shows "s \<noteq> []"
    and "v = s ! nat \<lfloor>h\<rfloor> + (h - of_nat (nat \<lfloor>h\<rfloor>)) * (s ! min (nat \<lfloor>h\<rfloor> + 1) (length s - 1) - s ! nat \<lfloor>h\<rfloor>)"
proof -
  have e: "length s = 0 \<longleftrightarrow> s = []" by simp
  from assms(1) show "s \<noteq> []"
    unfolding quantile_def Let_def s_def[symmetric] e by (simp split: if_splits)
  with assms(1) show "v = s ! nat \<lfloor>h\<rfloor> + (h - of_nat (nat \<lfloor>h\<rfloor>)) *
      (s ! min (nat \<lfloor>h\<rfloor> + 1) (length s - 1) - s ! nat \<lfloor>h\<rfloor>)"
    unfolding quantile_def Let_def s_def[symmetric] h_def e by simp
qed

lemma quantile_between:
  assumes q: "quantile q cells = Some v" and q01: "0 \<le> q" "q \<le> 1"
  defines "s \<equiv> sort (dropna cells)"
  defines "h \<equiv> of_nat (length s - 1) * q"
  shows "nat \<lfloor>h\<rfloor> < length s" "s ! nat \<lfloor>h\<rfloor> \<le> v" "v \<le> s ! min (nat \<lfloor>h\<rfloor> + 1) (length s - 1)"
proof -
  note qs = quantile_Some[OF q, folded s_def, folded h_def]
  have n: "length s > 0" using qs(1) by simp
  have h0: "0 \<le> h" using q01(1) by (simp add: h_def)
  have h1: "h \<le> of_nat (length s - 1)"
    using q01 unfolding h_def by (simp add: mult_left_le)
  have "\<lfloor>h\<rfloor> \<le> \<lfloor>(of_nat (length s - 1)) :: rat\<rfloor>" using h1 by (rule floor_mono)
  hence "\<lfloor>h\<rfloor> \<le> int (length s - 1)" by simp
  thus lo: "nat \<lfloor>h\<rfloor> < length s" using n by linarith
  have f0: "0 \<le> h - of_nat (nat \<lfloor>h\<rfloor>)" using h0 by simp
  have f1: "h - of_nat (nat \<lfloor>h\<rfloor>) \<le> 1" using h0 by simp linarith
  have hi: "min (nat \<lfloor>h\<rfloor> + 1) (length s - 1) < length s" using n by linarith
  have lohi: "nat \<lfloor>h\<rfloor> \<le> min (nat \<lfloor>h\<rfloor> + 1) (length s - 1)" using lo by linarith
  have srt: "sorted s" by (simp add: s_def)
  from interpolation_bounds[OF srt lohi hi f0 f1] qs(2)
  show "s ! nat \<lfloor>h\<rfloor> \<le> v" "v \<le> s ! min (nat \<lfloor>h\<rfloor> + 1) (length s - 1)" by simp_all
qed

lemma quantile_mono:
  assumes a: "quantile q1 cells = Some v1" and b: "quantile q2 cells = Some v2"
    and q: "0 \<le> q1" "q1 \<le> q2" "q2 \<le> 1"
  shows "v1 \<le> v2"
proof -
  define s where "s = sort (dropna cells)"
  define h1 where "h1 = of_nat (length s - 1) * q1"
  define h2 where "h2 = of_nat (length s - 1) * q2"
  define l1 where "l1 = nat \<lfloor>h1\<rfloor>"
  define l2 where "l2 = nat \<lfloor>h2\<rfloor>"
  have q1: "q1 \<le> 1" and q2: "0 \<le> q2" using q by simp_all
  note A = quantile_between[OF a q(1) q1, folded s_def, folded h1_def, folded l1_def]
  note B = quantile_between[OF b q2 q(3), folded s_def, folded h2_def, folded l2_def]
  note va = quantile_Some(2)[OF a, folded s_def, folded h1_def, folded l1_def]
  note vb = quantile_Some(2)[OF b, folded s_def, folded h2_def, folded l2_def]
  have srt: "sorted s" by (simp add: s_def)
  have h12: "h1 \<le> h2" unfolding h1_def h2_def using q(2) by (simp add: mult_left_mono)
  hence l12: "l1 \<le> l2" unfolding l1_def l2_def by (simp add: floor_mono nat_mono)
  show ?thesis
  proof (cases "l1 = l2")
    case True
    have d: "0 \<le> s ! min (l2 + 1) (length s - 1) - s ! l2"
      using srt B(1) by (simp add: sorted_nth_mono)
    have "(h1 - of_nat l2) * (s ! min (l2 + 1) (length s - 1) - s ! l2)
        \<le> (h2 - of_nat l2) * (s ! min (l2 + 1) (length s - 1) - s ! l2)"
      using h12 d by (intro mult_right_mono) simp_all
    thus ?thesis unfolding va vb True by simp
  next
    case False
    hence "l1 + 1 \<le> l2" using l12 by simp
    hence "min (l1 + 1) (length s - 1) \<le> l2" by simp
    hence "s ! min (l1 + 1) (length s - 1) \<le> s ! l2"
      using srt B(1) by (simp add: sorted_nth_mono)
    with A(3) B(2) show ?thesis by linarith
  qed
qed

lemma iqr_bounds_ordered:
  assumes "iqr_bounds cells = Some (lb, ub)"
  obtains Q1 Q3 where "quantile (1 / 4) cells = Some Q1" "quantile (3 / 4) cells = Some Q3"
    "lb = Q1 - 3 / 2 * (Q3 - Q1)" "ub = Q3 + 3 / 2 * (Q3 - Q1)" "lb \<le> Q1" "Q1 \<le> Q3" "Q3 \<le> ub"
proof -
  from assms obtain Q1 Q3 where
    q: "quantile (1 / 4) cells = Some Q1" "quantile (3 / 4) cells = Some Q3"
    and b: "lb = Q1 - 3 / 2 * (Q3 - Q1)" "ub = Q3 + 3 / 2 * (Q3 - Q1)"
    by (auto simp: iqr_bounds_def Let_def split: option.splits)
  have "Q1 \<le> Q3" using quantile_mono[OF q] by simp
  with q b that show ?thesis by simp
qed

lemma clip_cells_Some:
  assumes b: "iqr_bounds cells = Some (lb, ub)" and i: "i < length cells" and x: "cells ! i = Some x"
  shows "clip_cells cells ! i = Some (if x < lb then lb else if x > ub then ub else x)"
proof -
  from iqr_bounds_ordered[OF b] have "lb \<le> ub" by (metis order_trans)
  thus ?thesis
    using b i x by (auto simp: clip_cells_def replace_above_def replace_below_def)
qed


lemma clip_cells_unbounded: "iqr_bounds cells = None \<Longrightarrow> clip_cells cells = cells"
  by (simp add: clip_cells_def)






section \<open>Filled columns\<close>

lemma sorted_above_suffix:
  fixes s :: "rat list"
  assumes "sorted s" "i < length s" "m < s ! i"
  shows "length s - i \<le> length (filter (\<lambda>x. m < x) s)"
proof -
  have "\<forall>x \<in> set (drop i s). m < x"
  proof
    fix x assume "x \<in> set (drop i s)"
    then obtain k where k: "k < length s - i" "x = s ! (i + k)"
      by (auto simp: in_set_conv_nth)
    hence "s ! i \<le> x" using assms(1) by (simp add: sorted_nth_mono)
    with assms(3) show "m < x" by simp
  qed
  hence "filter (\<lambda>x. m < x) (drop i s) = drop i s" by simp
  moreover have "filter (\<lambda>x. m < x) s =
      filter (\<lambda>x. m < x) (take i s) @ filter (\<lambda>x. m < x) (drop i s)"
    by (metis append_take_drop_id filter_append)
  ultimately show ?thesis by simp
qed

lemma sorted_above_prefix:
  fixes s :: "rat list"
  assumes "sorted s" "j < length s" "s ! j \<le> m"
  shows "length (filter (\<lambda>x. m < x) s) \<le> length s - Suc j"
proof -
  have "\<forall>x \<in> set (take (Suc j) s). \<not> m < x"
  proof
    fix x assume "x \<in> set (take (Suc j) s)"
    then obtain k where k: "k < Suc j" "x = s ! k"
      using assms(2) by (auto simp: in_set_conv_nth)
    hence "x \<le> s ! j" using assms(1,2) by (simp add: sorted_nth_mono)
    with assms(3) show "\<not> m < x" by simp
  qed
  hence "filter (\<lambda>x. m < x) (take (Suc j) s) = []" by simp
  moreover have "filter (\<lambda>x. m < x) s =
      filter (\<lambda>x. m < x) (take (Suc j) s) @ filter (\<lambda>x. m < x) (drop (Suc j) s)"
    by (metis append_take_drop_id filter_append)
  ultimately have "length (filter (\<lambda>x. m < x) s) = length (filter (\<lambda>x. m < x) (drop (Suc j) s))"
    by simp
  also have "\<dots> \<le> length (drop (Suc j) s)" by (rule length_filter_le)
  finally show ?thesis by simp
qed

lemma sorted_below_prefix:
  fixes s :: "rat list"
  assumes "sorted s" "i < length s" "s ! i < m"
  shows "Suc i \<le> length (filter (\<lambda>x. x < m) s)"
proof -
  have "\<forall>x \<in> set (take (Suc i) s). x < m"
  proof
    fix x assume "x \<in> set (take (Suc i) s)"
    then obtain k where k: "k < Suc i" "x = s ! k"
      using assms(2) by (auto simp: in_set_conv_nth)
    hence "x \<le> s ! i" using assms(1,2) by (simp add: sorted_nth_mono)
    with assms(3) show "x < m" by simp
  qed
  hence "filter (\<lambda>x. x < m) (take (Suc i) s) = take (Suc i) s" by simp
  moreover have "filter (\<lambda>x. x < m) s =
      filter (\<lambda>x. x < m) (take (Suc i) s) @ filter (\<lambda>x. x < m) (drop (Suc i) s)"
    by (metis append_take_drop_id filter_append)
  ultimately show ?thesis using assms(2) by simp
qed

lemma sorted_below_suffix:
  fixes s :: "rat list"
  assumes "sorted s" "j < length s" "m \<le> s ! j"
  shows "length (filter (\<lambda>x. x < m) s) \<le> j"
proof -
  have "\<forall>x \<in> set (drop j s). \<not> x < m"
  proof
    fix x assume "x \<in> set (drop j s)"
    then obtain k where k: "k < length s - j" "x = s ! (j + k)"
      by (auto simp: in_set_conv_nth)
    hence "s ! j \<le> x" using assms(1) by (simp add: sorted_nth_mono)
    with assms(3) show "\<not> x < m" by simp
  qed
  hence "filter (\<lambda>x. x < m) (drop j s) = []" by simp
  moreover have "filter (\<lambda>x. x < m) s =
      filter (\<lambda>x. x < m) (take j s) @ filter (\<lambda>x. x < m) (drop j s)"
    by (metis append_take_drop_id filter_append)
  ultimately have "length (filter (\<lambda>x. x < m) s) = length (filter (\<lambda>x. x < m) (take j s))"
    by simp
  also have "\<dots> \<le> length (take j s)" by (rule length_filter_le)
  finally show ?thesis by simp
qed

lemma length_filter_sort:
  "length (filter P (sort xs)) = length (filter P xs)"
  by (simp add: filter_sort)

lemma length_dropna: "length (dropna cells) + isnull_sum cells = length cells"
  by (induction cells rule: dropna.induct) (auto simp: isnull_sum_def)

lemma dropna_fillna_length: "length (dropna (fillna (Some m) cells)) = length cells"
  by (induction cells rule: dropna.induct) (auto simp: fillna_def)

lemma dropna_fillna_filter:
  "\<not> P m \<Longrightarrow> length (filter P (dropna (fillna (Some m) cells))) = length (filter P (dropna cells))"
  by (induction cells rule: dropna.induct) (auto simp: fillna_def)

lemma median_Some:
  assumes "median cells = Some m"
  defines "t \<equiv> sort (dropna cells)"
  shows "t \<noteq> []" "t ! ((length t - 1) div 2) \<le> m" "m \<le> t ! (length t div 2)"
proof -
  have e: "length t = 0 \<longleftrightarrow> t = []" by simp
  from assms(1) show ne: "t \<noteq> []"
    unfolding median_def Let_def t_def[symmetric] e by (simp split: if_splits)
  have srt: "sorted t" by (simp add: t_def)
  show "t ! ((length t - 1) div 2) \<le> m" "m \<le> t ! (length t div 2)"
  proof -
    have p: "length t > 0" using ne by simp
    show "t ! ((length t - 1) div 2) \<le> m"
    proof (cases "odd (length t)")
      case True
      hence "(length t - 1) div 2 = length t div 2" by presburger
      moreover from assms(1) True ne have "m = t ! (length t div 2)"
        unfolding median_def Let_def t_def[symmetric] e by simp
      ultimately show ?thesis by simp
    next
      case False
      hence i: "(length t - 1) div 2 = length t div 2 - 1" using p by presburger
      from assms(1) False ne have m: "m = (t ! (length t div 2 - 1) + t ! (length t div 2)) / 2"
        unfolding median_def Let_def t_def[symmetric] e by simp
      have "t ! (length t div 2 - 1) \<le> t ! (length t div 2)"
        using srt p by (intro sorted_nth_mono) simp_all
      thus ?thesis unfolding i m by simp
    qed
    show "m \<le> t ! (length t div 2)"
    proof (cases "odd (length t)")
      case True
      from assms(1) True ne have "m = t ! (length t div 2)"
        unfolding median_def Let_def t_def[symmetric] e by simp
      thus ?thesis by simp
    next
      case False
      from assms(1) False ne have m: "m = (t ! (length t div 2 - 1) + t ! (length t div 2)) / 2"
        unfolding median_def Let_def t_def[symmetric] e by simp
      have "t ! (length t div 2 - 1) \<le> t ! (length t div 2)"
        using srt p by (intro sorted_nth_mono) simp_all
      thus ?thesis unfolding m by simp
    qed
  qed
qed

lemma median_within_quartiles:
  assumes med: "median cells = Some m" and missing: "isnull_sum cells > 0"
    and q1: "quantile (1 / 4) (fillna (Some m) cells) = Some Q1"
    and q3: "quantile (3 / 4) (fillna (Some m) cells) = Some Q3"
  shows "Q1 \<le> m" and "m \<le> Q3"
proof -
  define t where "t = sort (dropna cells)"
  define s where "s = sort (dropna (fillna (Some m) cells))"
  define p where "p = length t"
  define n where "n = length s"
  define h1 :: rat where "h1 = of_nat (n - 1) * (1 / 4)"
  define h3 :: rat where "h3 = of_nat (n - 1) * (3 / 4)"
  define l1 where "l1 = nat \<lfloor>h1\<rfloor>"
  define l3 where "l3 = nat \<lfloor>h3\<rfloor>"
  note M = median_Some[OF med, folded t_def, folded p_def]
  have srt: "sorted s" "sorted t" by (simp_all add: s_def t_def)
  have p0: "p > 0" using M(1) by (simp add: p_def)
  have n_len: "n = length cells" by (simp add: n_def s_def dropna_fillna_length)
  have "p + isnull_sum cells = length cells" using length_dropna[of cells] by (simp add: p_def t_def)
  hence pn: "p < n" using missing n_len by simp
  note A = quantile_between[OF q1, folded s_def, folded n_def, folded h1_def, folded l1_def]
  note B = quantile_between[OF q3, folded s_def, folded n_def, folded h3_def, folded l3_def]
  have A1: "l1 < n" and A3: "Q1 \<le> s ! min (l1 + 1) (n - 1)" using A by simp_all
  have B1: "l3 < n" and B2: "s ! l3 \<le> Q3" using B by simp_all
  \<comment> \<open>how many values lie strictly above and strictly below the median\<close>
  have above: "2 * length (filter (\<lambda>x. m < x) s) \<le> p"
  proof -
    have "length (filter (\<lambda>x. m < x) s) = length (filter (\<lambda>x. m < x) t)"
      by (simp add: s_def t_def length_filter_sort dropna_fillna_filter)
    also have "\<dots> \<le> length t - Suc ((p - 1) div 2)"
    proof (rule sorted_above_prefix[OF srt(2) _ M(2)])
      show "(p - 1) div 2 < length t" using p0 unfolding p_def by linarith
    qed
    finally show ?thesis unfolding p_def by linarith
  qed
  have below: "2 * length (filter (\<lambda>x. x < m) s) \<le> p"
  proof -
    have "length (filter (\<lambda>x. x < m) s) = length (filter (\<lambda>x. x < m) t)"
      by (simp add: s_def t_def length_filter_sort dropna_fillna_filter)
    also have "\<dots> \<le> p div 2"
    proof (rule sorted_below_suffix[OF srt(2) _ M(3)])
      show "p div 2 < length t" using p0 unfolding p_def by linarith
    qed
    finally show ?thesis by linarith
  qed
  \<comment> \<open>the positions of the two quartiles\<close>
  have h1_0: "0 \<le> h1" and h3_0: "0 \<le> h3" by (simp_all add: h1_def h3_def)
  have "of_nat l1 \<le> h1" unfolding l1_def using h1_0 by simp
  hence "(of_nat (4 * l1) :: rat) \<le> of_nat (n - 1)" by (simp add: h1_def)
  hence l1: "4 * l1 \<le> n - 1" by (simp only: of_nat_le_iff)
  have "h3 < of_nat l3 + 1" unfolding l3_def using h3_0 by simp linarith
  hence "(of_nat (3 * (n - 1)) :: rat) < of_nat (4 * l3 + 4)" by (simp add: h3_def)
  hence l3: "3 * (n - 1) < 4 * l3 + 4" by (simp only: of_nat_less_iff)
  show "Q1 \<le> m"
  proof -
    let ?hi = "min (l1 + 1) (n - 1)"
    have hi: "?hi < length s" using A1 unfolding n_def by linarith
    have "\<not> m < s ! ?hi"
    proof
      assume "m < s ! ?hi"
      from sorted_above_suffix[OF srt(1) hi this]
      have "n - ?hi \<le> length (filter (\<lambda>x. m < x) s)" by (simp add: n_def)
      with above pn l1 show False by linarith
    qed
    with A3 show ?thesis by simp
  qed
  show "m \<le> Q3"
  proof -
    have "\<not> s ! l3 < m"
    proof
      assume "s ! l3 < m"
      from sorted_below_prefix[OF srt(1) _ this] B1
      have "Suc l3 \<le> length (filter (\<lambda>x. x < m) s)" by (simp add: n_def)
      with below pn l3 show False by linarith
    qed
    with B2 show ?thesis by simp
  qed
qed

lemma fillna_Some_nth:
  "i < length cells \<Longrightarrow>
   fillna (Some m) cells ! i = (case cells ! i of None \<Rightarrow> Some m | Some x \<Rightarrow> Some x)"
  by (simp add: fillna_def)

lemma fillna_Some_complete: "None \<notin> set (fillna (Some m) cells)"
  by (auto simp: fillna_def split: option.splits)

lemma clip_cells_complete:
  assumes "None \<notin> set cells"
  shows "None \<notin> set (clip_cells cells)"
proof
  assume "None \<in> set (clip_cells cells)"
  then obtain i where i: "i < length cells" "clip_cells cells ! i = None"
    by (metis in_set_conv_nth length_clip_cells)
  from assms i(1) obtain x where x: "cells ! i = Some x"
    by (metis nth_mem option.exhaust)
  show False
  proof (cases "iqr_bounds cells")
    case None
    with i(2) x show False by (simp add: clip_cells_unbounded)
  next
    case (Some b)
    obtain lb ub where "b = (lb, ub)" by (cases b)
    with Some clip_cells_Some[OF _ i(1) x] i(2) show False by simp
  qed
qed

lemma median_clip_fixed:
  assumes med: "median cells = Some m" and i: "i < length cells" and none: "cells ! i = None"
  shows "clip_cells (fillna (Some m) cells) ! i = Some m"
proof -
  let ?c = "fillna (Some m) cells"
  have ci: "i < length ?c" "?c ! i = Some m"
    using i none by (simp_all add: fillna_def)
  have "None \<in> set cells" using i none by (metis nth_mem)
  hence missing: "isnull_sum cells > 0" by (auto simp: isnull_sum_def filter_empty_conv)
  show ?thesis
  proof (cases "iqr_bounds ?c")
    case None
    with ci show ?thesis by (simp add: clip_cells_unbounded)
  next
    case (Some b)
    obtain lb ub where b: "iqr_bounds ?c = Some (lb, ub)" using Some by (cases b) simp
    from iqr_bounds_ordered[OF b] obtain Q1 Q3 where
      q: "quantile (1 / 4) ?c = Some Q1" "quantile (3 / 4) ?c = Some Q3"
      and o: "lb \<le> Q1" "Q3 \<le> ub" by blast
    from median_within_quartiles[OF med missing q] o
    have "lb \<le> m" "m \<le> ub" by simp_all
    with clip_cells_Some[OF b ci] show ?thesis by simp
  qed
qed

lemma median_defined: "Some v \<in> set cells \<Longrightarrow> \<exists>m. median cells = Some m"
proof -
  assume "Some v \<in> set cells"
  hence "dropna cells \<noteq> []" using set_dropna[of v cells] by auto
  hence "length (sort (dropna cells)) \<noteq> 0" by simp
  hence n: "length (dropna cells) \<noteq> 0" by simp
  let ?s = "sort (dropna cells)"
  have ne: "?s \<noteq> []" using n by (metis length_0_conv length_sort)
  show ?thesis
  proof (cases "odd (length (dropna cells))")
    case True
    with n ne have "median cells = Some (?s ! (length ?s div 2))"
      by (simp add: median_def Let_def)
    thus ?thesis by (rule exI)
  next
    case False
    with n ne have "median cells = Some ((?s ! (length ?s div 2 - 1) + ?s ! (length ?s div 2)) / 2)"
      by (simp add: median_def Let_def)
    thus ?thesis by (rule exI)
  qed
qed

lemma all_missing_unchanged:
  assumes "\<forall>v. Some v \<notin> set cells"
  shows "clip_cells (fillna (median cells) cells) = cells"
proof -
  have e: "dropna cells = []"
    using assms set_dropna[of _ cells] by (cases "dropna cells") (auto simp: list.set_intros)
  hence "median cells = None" by (simp add: median_def)
  moreover have "fillna None cells = cells"
    by (induction cells) (auto simp: fillna_def split: option.splits)
  moreover have "iqr_bounds cells = None" using e by (simp add: iqr_bounds_def quantile_def)
  ultimately show ?thesis by (simp add: clip_cells_unbounded)
qed

text \<open>
  Claim C2 as stated (every column of the returned frame is free of missing values) fails
  on a numeric column without any value: its median is NaN, \<^verbatim>\<open>fillna\<close> with NaN changes
  nothing, and the frame comes back as it went in.
\<close>

theorem all_missing_numeric_column_stays_missing:
  "clean_data all_missing_numeric_frame = Inr all_missing_numeric_frame \<and>
   getitem all_missing_numeric_frame ''AQI'' = Inr (Numeric [None, None])"
  by code_simp

text \<open>
  Claim C2, amended. When \<^verbatim>\<open>clean_data\<close> returns, every column that has at least one
  non-missing cell has no missing cell in the result: in a numeric column each missing
  cell holds the median of the non-missing values (the clipping that follows leaves the
  median where it is), in an object column each missing cell holds a most frequent
  non-missing value. A numeric column whose cells are all missing is returned unchanged.
\<close>

theorem missing_values_filled:
  "wf_dataframe df \<and> clean_data df = Inr df' \<longrightarrow>
     (\<forall>name xs v. getitem df name = Inr (Numeric xs) \<and> Some v \<in> set xs \<longrightarrow>
        (\<exists>m ys. median xs = Some m \<and> getitem df' name = Inr (Numeric ys) \<and>
           length ys = length xs \<and> None \<notin> set ys \<and>
           (\<forall>i < length xs. xs ! i = None \<longrightarrow> ys ! i = Some m))) \<and>
     (\<forall>name ss v. getitem df name = Inr (Object ss) \<and> Some v \<in> set ss \<longrightarrow>
        (\<exists>m ss'. getitem df' name = Inr (Object ss') \<and>
           length ss' = length ss \<and> None \<notin> set ss' \<and>
           Some m \<in> set ss \<and> (\<forall>w. count_list ss (Some w) \<le> count_list ss (Some m)) \<and>
           (\<forall>i < length ss. ss ! i = None \<longrightarrow> ss' ! i = Some m))) \<and>
     (\<forall>name xs. getitem df name = Inr (Numeric xs) \<and> (\<forall>v. Some v \<notin> set xs) \<longrightarrow>
        getitem df' name = Inr (Numeric xs))"
proof (intro impI, elim conjE, intro conjI allI impI; (elim conjE)?)
  fix name xs v
  assume wf: "wf_dataframe df" and cd: "clean_data df = Inr df'"
    and g: "getitem df name = Inr (Numeric xs)" and v: "Some v \<in> set xs"
  have d: "distinct (columns df)" using wf by (simp add: wf_dataframe_def)
  from median_defined[OF v] obtain m where m: "median xs = Some m" by blast
  let ?ys = "clip_cells (fillna (Some m) xs)"
  have "getitem df' name = Inr (Numeric ?ys)"
    using clean_data_getitem[OF d cd g] m by simp
  moreover have "length ?ys = length xs" by (simp add: length_clip_cells fillna_def)
  moreover have "None \<notin> set ?ys" by (intro clip_cells_complete fillna_Some_complete)
  moreover have "\<forall>i < length xs. xs ! i = None \<longrightarrow> ?ys ! i = Some m"
    using median_clip_fixed[OF m] by blast
  ultimately show "\<exists>m ys. median xs = Some m \<and> getitem df' name = Inr (Numeric ys) \<and>
           length ys = length xs \<and> None \<notin> set ys \<and>
           (\<forall>i < length xs. xs ! i = None \<longrightarrow> ys ! i = Some m)"
    using m by blast
next
  fix name ss v
  assume wf: "wf_dataframe df" and cd: "clean_data df = Inr df'"
    and g: "getitem df name = Inr (Object ss)" and v: "Some v \<in> set ss"
  have d: "distinct (columns df)" using wf by (simp add: wf_dataframe_def)
  have "dropna ss \<noteq> []" using v set_dropna[of v ss] by auto
  then obtain m rest where m: "mode ss = m # rest"
    using mode_empty_iff[of ss] by (cases "mode ss") auto
  let ?ss' = "fillna (Some m) ss"
  have "getitem df' name = Inr (Object ?ss')"
    using clean_data_getitem[OF d cd g] m by simp
  moreover have "length ?ss' = length ss" by (simp add: fillna_def)
  moreover have "None \<notin> set ?ss'" by (rule fillna_Some_complete)
  moreover have "\<forall>i < length ss. ss ! i = None \<longrightarrow> ?ss' ! i = Some m"
    by (simp add: fillna_def)
  ultimately show "\<exists>m ss'. getitem df' name = Inr (Object ss') \<and>
           length ss' = length ss \<and> None \<notin> set ss' \<and>
           Some m \<in> set ss \<and> (\<forall>w. count_list ss (Some w) \<le> count_list ss (Some m)) \<and>
           (\<forall>i < length ss. ss ! i = None \<longrightarrow> ss' ! i = Some m)"
    using mode_head(1,2)[OF m] by blast
next
  fix name xs
  assume wf: "wf_dataframe df" and cd: "clean_data df = Inr df'"
    and g: "getitem df name = Inr (Numeric xs)" and v: "\<forall>v. Some v \<notin> set xs"
  have d: "distinct (columns df)" using wf by (simp add: wf_dataframe_def)
  show "getitem df' name = Inr (Numeric xs)"
    using clean_data_getitem[OF d cd g] all_missing_unchanged[OF v] by simp
qed

theorem missing_values_filled_witness:
  "wf_dataframe survey_frame \<and> clean_data survey_frame = Inr survey_cleaned \<and>
   getitem survey_frame ''Flood_Impact_Score'' =
     Inr (Numeric [Some 5, Some 6, None, Some 7, Some 6]) \<and>
   median [Some 5, Some 6, None, Some 7, Some 6] = Some 6 \<and>
   getitem survey_cleaned ''Flood_Impact_Score'' =
     Inr (Numeric [Some 6, Some 6, Some 6, Some 6, Some 6]) \<and>
   getitem survey_frame ''District'' =
     Inr (Object [Some ''Dhaka'', None, Some ''Khulna'', Some ''Rangpur'', Some ''Sylhet'']) \<and>
   getitem survey_cleaned ''District'' =
     Inr (Object [Some ''Dhaka'', Some ''Dhaka'', Some ''Khulna'', Some ''Rangpur'', Some ''Sylhet'']) \<and>
   (\<exists>m ys. median [Some 5, Some 6, None, Some 7, Some 6] = Some m \<and>
      getitem survey_cleaned ''Flood_Impact_Score'' = Inr (Numeric ys) \<and>
      None \<notin> set ys \<and> ys ! 2 = Some m)"
proof -
  let ?xs = "[Some 5, Some 6, None, Some 7, Some (6 :: rat)]"
  have g1: "getitem survey_frame ''Flood_Impact_Score'' = Inr (Numeric ?xs)" by code_simp
  have md: "median ?xs = Some 6" by code_simp
  have g2: "getitem survey_cleaned ''Flood_Impact_Score'' =
     Inr (Numeric [Some 6, Some 6, Some 6, Some 6, Some 6])" by code_simp
  have g3: "getitem survey_frame ''District'' =
     Inr (Object [Some ''Dhaka'', None, Some ''Khulna'', Some ''Rangpur'', Some ''Sylhet''])"
    by code_simp
  have g4: "getitem survey_cleaned ''District'' =
     Inr (Object [Some ''Dhaka'', Some ''Dhaka'', Some ''Khulna'', Some ''Rangpur'', Some ''Sylhet''])"
    by code_simp
  have v: "Some 5 \<in> set ?xs" by simp
  from missing_values_filled[of survey_frame survey_cleaned] survey_frame_wf survey_frame_cleaned
  have "\<forall>name xs v. getitem survey_frame name = Inr (Numeric xs) \<and> Some v \<in> set xs \<longrightarrow>
        (\<exists>m ys. median xs = Some m \<and> getitem survey_cleaned name = Inr (Numeric ys) \<and>
           length ys = length xs \<and> None \<notin> set ys \<and>
           (\<forall>i < length xs. xs ! i = None \<longrightarrow> ys ! i = Some m))"
    by blast
  with g1 v obtain m ys where
    "median ?xs = Some m" "getitem survey_cleaned ''Flood_Impact_Score'' = Inr (Numeric ys)"
    "None \<notin> set ys" "\<forall>i < length ?xs. ?xs ! i = None \<longrightarrow> ys ! i = Some m"
    by blast
  moreover from this(4) have "ys ! 2 = Some m" by simp
  ultimately show ?thesis
    using survey_frame_wf survey_frame_cleaned g1 md g2 g3 g4 by blast
qed

end
